theory Spec2Isabelle
  imports Complex_Main "HOL-Library.Multiset"
begin

section \<open>Smart Channel Swapper: the colour-pair store and the matrix solver\<close>

text \<open>
  A shallow embedding of \<^verbatim>\<open>src/main.js\<close>. The arithmetic of the solver is modelled
  over \<^typ>\<open>real\<close>, without rounding; the two comparisons with \<^verbatim>\<open>1e-12\<close> use the exact
  value of that double. The id counter of the store is a \<^typ>\<open>nat\<close> that is incremented
  as the double of the source is: it stops at \<open>2 ^ 53\<close>. Where the source leaves the
  finite numbers (a division by zero, arithmetic on \<^verbatim>\<open>undefined\<close>) JavaScript does not
  raise but carries \<^verbatim>\<open>NaN\<close> or \<^verbatim>\<open>Infinity\<close> on; the model stops there with
  \<open>NotFinite\<close>, since a real number cannot stand for such a value. A raised
  \<^verbatim>\<open>TypeError\<close> is \<open>TypeError\<close>.
\<close>

subsection \<open>Data\<close>

record color =
  r :: real
  g :: real
  b :: real

text \<open>A pair of the store: \<^verbatim>\<open>{id, source, target}\<close>; \<^verbatim>\<open>null\<close> is \<open>None\<close>.\<close>

record colorPair =
  pid :: nat
  source :: "color option"
  target :: "color option"

text \<open>The two module variables \<^verbatim>\<open>colorPairs\<close> and \<^verbatim>\<open>nextPairId\<close>.\<close>

record store =
  colorPairs :: "colorPair list"
  nextPairId :: nat

datatype error = TypeError | NotFinite

type_synonym matrix = "real list list"

subsection \<open>Colour-pair management\<close>

definition initialStore :: store where
  "initialStore = \<lparr>colorPairs = [], nextPairId = 1\<rparr>"

text \<open>
  \<^verbatim>\<open>nextPairId++\<close>: the counter is a double that holds an integer. Below \<open>2 ^ 53\<close> the sum
  \<open>n + 1\<close> is exact; \<open>2 ^ 53 + 1\<close> is not a double and rounds (ties to even) back to
  \<open>2 ^ 53\<close>, so there the counter stays. A session starts at 1, so larger counters do not
  occur.
\<close>

definition js_increment :: "nat \<Rightarrow> nat" where
  "js_increment n = (if n < 2 ^ 53 then n + 1 else n)"

definition addColorPair :: "store \<Rightarrow> store" where
  "addColorPair s =
     (let i = nextPairId s;
          pair = \<lparr>pid = i, source = None, target = None\<rparr>
      in \<lparr>colorPairs = colorPairs s @ [pair], nextPairId = js_increment i\<rparr>)"

definition removeColorPair :: "nat \<Rightarrow> store \<Rightarrow> store" where
  "removeColorPair i s = s\<lparr>colorPairs := filter (\<lambda>p. pid p \<noteq> i) (colorPairs s)\<rparr>"

text \<open>
  \<^verbatim>\<open>colorPairs.find(p => p.id === id)\<close>: the index of the first pair with the id.
  The source mutates the object found, which is the element of the array at that index.
\<close>

fun findPair :: "nat \<Rightarrow> colorPair list \<Rightarrow> nat option" where
  "findPair i [] = None"
| "findPair i (p # ps) =
     (if pid p = i then Some 0
      else (case findPair i ps of None \<Rightarrow> None | Some k \<Rightarrow> Some (Suc k)))"

text \<open>The colour argument is what \<^verbatim>\<open>getCurrentForegroundColor()\<close> returns at the call.\<close>

definition setSourceForPair :: "nat \<Rightarrow> color \<Rightarrow> store \<Rightarrow> store" where
  "setSourceForPair i fg s =
     (case findPair i (colorPairs s) of
        None \<Rightarrow> s
      | Some k \<Rightarrow> s\<lparr>colorPairs := (colorPairs s)[k := (colorPairs s ! k)\<lparr>source := Some fg\<rparr>]\<rparr>)"

definition setTargetForPair :: "nat \<Rightarrow> color \<Rightarrow> store \<Rightarrow> store" where
  "setTargetForPair i fg s =
     (case findPair i (colorPairs s) of
        None \<Rightarrow> s
      | Some k \<Rightarrow> s\<lparr>colorPairs := (colorPairs s)[k := (colorPairs s ! k)\<lparr>target := Some fg\<rparr>]\<rparr>)"

text \<open>The actions of the user interface on the store, and a session as a list of them.\<close>

datatype action = Add | Remove nat | SetSource nat color | SetTarget nat color

fun step :: "store \<Rightarrow> action \<Rightarrow> store" where
  "step s Add = addColorPair s"
| "step s (Remove i) = removeColorPair i s"
| "step s (SetSource i fg) = setSourceForPair i fg s"
| "step s (SetTarget i fg) = setTargetForPair i fg s"

definition run :: "action list \<Rightarrow> store" where
  "run acts = foldl step initialStore acts"

text \<open>The number of adds of a session.\<close>

fun adds :: "action list \<Rightarrow> nat" where
  "adds [] = 0"
| "adds (a # acts) = (case a of Add \<Rightarrow> Suc (adds acts) | _ \<Rightarrow> adds acts)"

text \<open>
  The ids of the pairs created along a session, oldest first: an add pushes the new pair
  at the end of the collection, and its id is read off there.
\<close>

fun issued :: "store \<Rightarrow> action list \<Rightarrow> nat list" where
  "issued s [] = []"
| "issued s (a # acts) =
     (case a of
        Add \<Rightarrow> pid (last (colorPairs (step s a))) # issued (step s a) acts
      | _ \<Rightarrow> issued (step s a) acts)"

subsection \<open>The linear solver\<close>

text \<open>Sequencing of steps that may leave the finite numbers or raise.\<close>

fun foldE :: "('a \<Rightarrow> 's \<Rightarrow> error + 's) \<Rightarrow> 'a list \<Rightarrow> 's \<Rightarrow> error + 's" where
  "foldE f [] s = Inr s"
| "foldE f (x # xs) s = (case f x s of Inl e \<Rightarrow> Inl e | Inr s' \<Rightarrow> foldE f xs s')"

text \<open>JavaScript's \<^verbatim>\<open>x / y\<close>: \<^verbatim>\<open>Infinity\<close> or \<^verbatim>\<open>NaN\<close> when \<open>y\<close> is zero.\<close>

definition js_div :: "real \<Rightarrow> real \<Rightarrow> error + real" where
  "js_div x y = (if y = 0 then Inl NotFinite else Inr (x / y))"

text \<open>
  \<^verbatim>\<open>solveLinearSystem\<close> works on the augmented matrix \<open>aug\<close> of \<open>n\<close> rows of
  length \<open>n + 1\<close>; its only caller passes an \<open>n \<times> n\<close> matrix and a vector of length
  \<open>n\<close>, so every index below is in range.
\<close>

text \<open>The search for the pivot row: the first row of largest magnitude in the column.\<close>

definition findMaxRow :: "nat \<Rightarrow> nat \<Rightarrow> matrix \<Rightarrow> nat" where
  "findMaxRow n col aug =
     foldl (\<lambda>maxRow row. if \<bar>aug ! row ! col\<bar> > \<bar>aug ! maxRow ! col\<bar> then row else maxRow)
       col [Suc col..<n]"

text \<open>\<^verbatim>\<open>[aug[col], aug[maxRow]] = [aug[maxRow], aug[col]]\<close>\<close>

definition swapRows :: "nat \<Rightarrow> nat \<Rightarrow> matrix \<Rightarrow> matrix" where
  "swapRows col maxRow aug = (aug[col := aug ! maxRow])[maxRow := aug ! col]"

text \<open>One row of the elimination below the pivot: the factor, then columns \<open>col..n\<close>.\<close>

definition eliminateRow :: "nat \<Rightarrow> nat \<Rightarrow> nat \<Rightarrow> matrix \<Rightarrow> error + matrix" where
  "eliminateRow n col row aug =
     (case js_div (aug ! row ! col) (aug ! col ! col) of
        Inl e \<Rightarrow> Inl e
      | Inr factor \<Rightarrow>
          Inr (foldl (\<lambda>a j. a[row := (a ! row)[j := a ! row ! j - factor * a ! col ! j]])
                 aug [col..<Suc n]))"

definition eliminateColumn :: "nat \<Rightarrow> nat \<Rightarrow> matrix \<Rightarrow> error + matrix" where
  "eliminateColumn n col aug = foldE (eliminateRow n col) [Suc col..<n] aug"

text \<open>
  The literal \<^verbatim>\<open>1e-12\<close> of the source is a double: the one nearest to \<open>1 / 10 ^ 12\<close>,
  which is \<open>4951760157141521 / 2 ^ 92\<close> and slightly smaller. A comparison of doubles
  is exact, so the two tests of the solver compare with this value.
\<close>

definition js_1e_12 :: real where
  "js_1e_12 = 4951760157141521 / 2 ^ 92"

text \<open>One turn of the forward loop: pivot search, swap, and the elimination unless skipped.\<close>

definition forwardStep :: "nat \<Rightarrow> nat \<Rightarrow> matrix \<Rightarrow> error + matrix" where
  "forwardStep n col aug =
     (let aug1 = swapRows col (findMaxRow n col aug) aug
      in if \<bar>aug1 ! col ! col\<bar> < js_1e_12 then Inr aug1
         else eliminateColumn n col aug1)"

definition forwardElimination :: "nat \<Rightarrow> matrix \<Rightarrow> error + matrix" where
  "forwardElimination n aug = foldE (forwardStep n) [0..<n] aug"

text \<open>One turn of the back substitution, for the unknown \<open>i\<close>.\<close>

definition backStep :: "nat \<Rightarrow> matrix \<Rightarrow> nat \<Rightarrow> real list \<Rightarrow> error + real list" where
  "backStep n aug i x =
     (if \<bar>aug ! i ! i\<bar> < js_1e_12 then Inr (x[i := (if i = 0 then 1 else 0)])
      else
        (let x1 = x[i := aug ! i ! n];
             x2 = foldl (\<lambda>y j. y[i := y ! i - aug ! i ! j * y ! j]) x1 [Suc i..<n]
         in case js_div (x2 ! i) (aug ! i ! i) of
              Inl e \<Rightarrow> Inl e
            | Inr q \<Rightarrow> Inr (x2[i := q])))"

definition backSubstitution :: "nat \<Rightarrow> matrix \<Rightarrow> error + real list" where
  "backSubstitution n aug = foldE (backStep n aug) (rev [0..<n]) (replicate n 0)"

definition solveLinearSystem :: "matrix \<Rightarrow> real list \<Rightarrow> error + real list" where
  "solveLinearSystem A rhs =
     (let n = length A;
          aug = map (\<lambda>(row, i). row @ [rhs ! i]) (zip A [0..<n])
      in case forwardElimination n aug of
           Inl e \<Rightarrow> Inl e
         | Inr aug' \<Rightarrow> backSubstitution n aug')"

subsection \<open>Least squares by the normal equations\<close>

definition epsilon :: real where
  "epsilon = 1 / 10 ^ 10"

definition ATA_of :: "nat \<Rightarrow> matrix \<Rightarrow> matrix" where
  "ATA_of m A =
     map (\<lambda>i. map (\<lambda>j. foldl (\<lambda>sum row. sum + row ! i * row ! j) 0 A) [0..<m]) [0..<m]"

definition ATb_of :: "nat \<Rightarrow> matrix \<Rightarrow> real list \<Rightarrow> real list" where
  "ATb_of m A rhs =
     map (\<lambda>i. foldl (\<lambda>sum (row, k). sum + row ! i * rhs ! k) 0 (zip A [0..<length A])) [0..<m]"

definition regularize :: "nat \<Rightarrow> matrix \<Rightarrow> matrix" where
  "regularize m ATA = foldl (\<lambda>M i. M[i := (M ! i)[i := M ! i ! i + epsilon]]) ATA [0..<m]"

text \<open>
  \<^verbatim>\<open>A[0].length\<close> raises a TypeError on the empty array. A row shorter than the first
  one, or a target vector shorter than \<open>A\<close>, makes the sums read \<^verbatim>\<open>undefined\<close>, and
  the products with it are \<^verbatim>\<open>NaN\<close>.
\<close>

definition solveLeastSquares :: "matrix \<Rightarrow> real list \<Rightarrow> error + real list" where
  "solveLeastSquares A rhs =
     (case A of
        [] \<Rightarrow> Inl TypeError
      | row0 # _ \<Rightarrow>
          (let m = length row0
           in if list_ex (\<lambda>row. length row < m) A \<or> (0 < m \<and> length rhs < length A)
              then Inl NotFinite
              else solveLinearSystem (regularize m (ATA_of m A)) (ATb_of m A rhs)))"

subsection \<open>The channel matrix\<close>

definition normalize :: "color \<Rightarrow> real list" where
  "normalize c = [r c / 255, g c / 255, b c / 255]"

text \<open>The clipping prevention of one row: rescale when the row sum is out of bounds.\<close>

definition scaleRow :: "bool \<Rightarrow> real \<Rightarrow> real list \<Rightarrow> error + real list" where
  "scaleRow preventClipping maxSum row =
     (if preventClipping then
        (let rowSum = foldl (\<lambda>sum val. sum + val) 0 row
         in if \<bar>rowSum\<bar> > maxSum then
              (case js_div maxSum \<bar>rowSum\<bar> of
                 Inl e \<Rightarrow> Inl e
               | Inr scale \<Rightarrow> Inr (map (\<lambda>v. v * scale) row))
            else Inr row)
      else Inr row)"

definition clampRow :: "real list \<Rightarrow> real list" where
  "clampRow row = map (\<lambda>v. max (- 200) (min 200 v)) row"

text \<open>The body of the loop over the output channels.\<close>

definition channelRow ::
  "matrix \<Rightarrow> matrix \<Rightarrow> bool \<Rightarrow> real \<Rightarrow> nat \<Rightarrow> matrix \<Rightarrow> error + matrix" where
  "channelRow src tgt preventClipping maxSum channel mat =
     (let targetValues = map (\<lambda>t. t ! channel) tgt
      in case solveLeastSquares src targetValues of
           Inl e \<Rightarrow> Inl e
         | Inr weights \<Rightarrow>
             (case scaleRow preventClipping maxSum (map (\<lambda>w. w * 100) weights) of
                Inl e \<Rightarrow> Inl e
              | Inr row \<Rightarrow> Inr (mat @ [clampRow row])))"

definition computeChannelSwapperMatrix ::
  "color list \<Rightarrow> color list \<Rightarrow> bool \<Rightarrow> real \<Rightarrow> error + matrix" where
  "computeChannelSwapperMatrix sourceColors targetColors preventClipping maxSum =
     (let src = map normalize sourceColors;
          tgt = map normalize targetColors
      in foldE (channelRow src tgt preventClipping maxSum) [0, 1, 2] [])"

subsection \<open>The click on Calculate\<close>

text \<open>
  What the handler does with the store: either it shows a message and returns, or it
  calls the solver with the colours of the complete pairs (the default \<open>maxSum\<close> of 100).
  The display and the application of the result to the host are not modelled.
\<close>

datatype click =
    ShowResult string
  | SolverCalled "color list" "color list" bool "error + matrix"

definition calculateClick :: "store \<Rightarrow> bool \<Rightarrow> click" where
  "calculateClick s preventClipping =
     (let validPairs = filter (\<lambda>p. source p \<noteq> None \<and> target p \<noteq> None) (colorPairs s)
      in if length validPairs = 0
         then ShowResult ''Please add at least one complete color pair (source + target).''
         else
           (let sourceColors = map (\<lambda>p. the (source p)) validPairs;
                targetColors = map (\<lambda>p. the (target p)) validPairs
            in SolverCalled sourceColors targetColors preventClipping
                 (computeChannelSwapperMatrix sourceColors targetColors preventClipping 100)))"

text \<open>The invariant of the ids: increasing along the collection, below the counter.\<close>

definition ids_ok :: "store \<Rightarrow> bool" where
  "ids_ok s \<longleftrightarrow>
     sorted_wrt (<) (map pid (colorPairs s)) \<and>
     list_all (\<lambda>i. i < nextPairId s) (map pid (colorPairs s))"

text \<open>A matrix of rows of three entries, each within the range of the host.\<close>

definition rows_ok :: "matrix \<Rightarrow> bool" where
  "rows_ok mat \<longleftrightarrow> (\<forall>row \<in> set mat. length row = 3 \<and> (\<forall>v \<in> set row. - 200 \<le> v \<and> v \<le> 200))"

text \<open>The systems \<^verbatim>\<open>solveLinearSystem\<close> is written for: \<open>n\<close> rows of \<open>n\<close> entries and
  a right-hand side of \<open>n\<close> entries.\<close>

definition wellShaped :: "matrix \<Rightarrow> real list \<Rightarrow> bool" where
  "wellShaped A rhs \<longleftrightarrow> list_all (\<lambda>row. length row = length A) A \<and> length rhs = length A"

section \<open>The colour-pair store\<close>

subsection \<open>Ids\<close>


lemma findPair_None: "findPair i ps = None \<longleftrightarrow> i \<notin> pid ` set ps"
  by (induction ps) (auto split: option.splits)

lemma findPair_Some:
  "findPair i ps = Some k \<Longrightarrow>
     k < length ps \<and> pid (ps ! k) = i \<and> (\<forall>j<k. pid (ps ! j) \<noteq> i)"
proof (induction ps arbitrary: k)
  case Nil
  then show ?case by simp
next
  case (Cons p ps)
  show ?case
  proof (cases "pid p = i")
    case True
    with Cons.prems show ?thesis by simp
  next
    case False
    with Cons.prems obtain k' where k': "findPair i ps = Some k'" "k = Suc k'"
      by (auto split: option.splits)
    from Cons.IH [OF k'(1)] False k'(2) show ?thesis
      by (auto simp: nth_Cons split: nat.splits)
  qed
qed

lemma map_pid_update_source:
  "k < length ps \<Longrightarrow> map pid (ps[k := (ps ! k)\<lparr>source := v\<rparr>]) = map pid ps"
  by (simp add: map_update list_update_same_conv)

lemma map_pid_update_target:
  "k < length ps \<Longrightarrow> map pid (ps[k := (ps ! k)\<lparr>target := v\<rparr>]) = map pid ps"
  by (simp add: map_update list_update_same_conv)

lemma map_target_update_source:
  "k < length ps \<Longrightarrow> map target (ps[k := (ps ! k)\<lparr>source := v\<rparr>]) = map target ps"
  by (simp add: map_update list_update_same_conv)

lemma ids_setSourceForPair:
  "map pid (colorPairs (setSourceForPair i fg s)) = map pid (colorPairs s)"
  by (auto simp: setSourceForPair_def map_pid_update_source split: option.splits
      dest: findPair_Some)

lemma ids_setTargetForPair:
  "map pid (colorPairs (setTargetForPair i fg s)) = map pid (colorPairs s)"
  by (auto simp: setTargetForPair_def map_pid_update_target split: option.splits
      dest: findPair_Some)

lemma next_setSourceForPair: "nextPairId (setSourceForPair i fg s) = nextPairId s"
  by (simp add: setSourceForPair_def split: option.splits)

lemma next_setTargetForPair: "nextPairId (setTargetForPair i fg s) = nextPairId s"
  by (simp add: setTargetForPair_def split: option.splits)

lemma ids_removeColorPair:
  "map pid (colorPairs (removeColorPair i s)) = filter (\<lambda>j. j \<noteq> i) (map pid (colorPairs s))"
  by (simp add: removeColorPair_def filter_map comp_def)

lemma ids_addColorPair:
  "map pid (colorPairs (addColorPair s)) = map pid (colorPairs s) @ [nextPairId s]"
  by (simp add: addColorPair_def Let_def)

lemma created_pid: "pid (last (colorPairs (addColorPair s))) = nextPairId s"
  by (simp add: addColorPair_def Let_def)

lemma next_addColorPair: "nextPairId (addColorPair s) = js_increment (nextPairId s)"
  by (simp add: addColorPair_def Let_def)

lemma next_removeColorPair: "nextPairId (removeColorPair i s) = nextPairId s"
  by (simp add: removeColorPair_def)

lemma next_step_cases:
  "nextPairId (step s a) =
     (case a of Add \<Rightarrow> js_increment (nextPairId s) | _ \<Rightarrow> nextPairId s)"
  by (cases a)
    (simp_all add: next_addColorPair next_removeColorPair next_setSourceForPair
      next_setTargetForPair)

lemma next_step_mono: "nextPairId s \<le> nextPairId (step s a)"
  by (cases a) (simp_all add: next_step_cases js_increment_def del: step.simps)

lemma next_foldl_mono: "nextPairId s \<le> nextPairId (foldl step s acts)"
proof (induction acts arbitrary: s)
  case Nil
  then show ?case by simp
next
  case (Cons a acts)
  have "nextPairId s \<le> nextPairId (step s a)" by (rule next_step_mono)
  also have "\<dots> \<le> nextPairId (foldl step (step s a) acts)" by (rule Cons.IH)
  finally show ?case by simp
qed

text \<open>While the counter is below \<open>2 ^ 53\<close> it counts the adds.\<close>

lemma next_step_counts:
  assumes "nextPairId s + adds [a] \<le> 2 ^ 53"
  shows "nextPairId (step s a) = nextPairId s + adds [a]"
  using assms
  by (cases a) (simp_all add: next_step_cases js_increment_def del: step.simps)

lemma adds_Cons: "adds (a # acts) = adds [a] + adds acts"
  by (cases a) simp_all

lemma next_foldl_counts:
  assumes "nextPairId s + adds acts \<le> 2 ^ 53"
  shows "nextPairId (foldl step s acts) = nextPairId s + adds acts"
  using assms
proof (induction acts arbitrary: s)
  case Nil
  then show ?case by simp
next
  case (Cons a acts)
  from Cons.prems have b: "nextPairId s + adds [a] + adds acts \<le> 2 ^ 53"
    by (simp only: adds_Cons [of a acts] add.assoc)
  then have "nextPairId s + adds [a] \<le> 2 ^ 53" by linarith
  then have n: "nextPairId (step s a) = nextPairId s + adds [a]"
    by (rule next_step_counts)
  with b have "nextPairId (step s a) + adds acts \<le> 2 ^ 53" by linarith
  then have "nextPairId (foldl step (step s a) acts) = nextPairId (step s a) + adds acts"
    by (rule Cons.IH)
  with n have "nextPairId (foldl step (step s a) acts) = nextPairId s + adds [a] + adds acts"
    by linarith
  then show ?case
    by (simp only: adds_Cons [of a acts] add.assoc foldl_Cons)
qed

lemma ids_ok_step:
  assumes "ids_ok s" and "nextPairId s + adds [a] \<le> 2 ^ 53"
  shows "ids_ok (step s a)"
proof (cases a)
  case Add
  with assms(2) have "nextPairId s < 2 ^ 53" by simp
  then have "nextPairId (addColorPair s) = Suc (nextPairId s)"
    by (simp add: next_addColorPair js_increment_def)
  with assms(1) show ?thesis
    unfolding Add ids_ok_def step.simps ids_addColorPair
    by (auto simp: sorted_wrt_append list_all_iff intro: less_SucI)
next
  case (Remove i)
  from assms(1) show ?thesis
    unfolding Remove ids_ok_def step.simps ids_removeColorPair next_removeColorPair
    by (auto simp: sorted_wrt_filter list_all_iff)
next
  case (SetSource i fg)
  from assms(1) show ?thesis
    unfolding SetSource ids_ok_def
    by (simp add: ids_setSourceForPair next_setSourceForPair)
next
  case (SetTarget i fg)
  from assms(1) show ?thesis
    unfolding SetTarget ids_ok_def
    by (simp add: ids_setTargetForPair next_setTargetForPair)
qed

lemma ids_ok_foldl:
  assumes "ids_ok s" and "nextPairId s + adds acts \<le> 2 ^ 53"
  shows "ids_ok (foldl step s acts)"
  using assms
proof (induction acts arbitrary: s)
  case Nil
  then show ?case by simp
next
  case (Cons a acts)
  from Cons.prems(2) have b: "nextPairId s + adds [a] + adds acts \<le> 2 ^ 53"
    by (simp only: adds_Cons [of a acts] add.assoc)
  then have a: "nextPairId s + adds [a] \<le> 2 ^ 53" by linarith
  have ok: "ids_ok (step s a)"
    using Cons.prems(1) a by (rule ids_ok_step)
  have "nextPairId (step s a) + adds acts \<le> 2 ^ 53"
    using b next_step_counts [OF a] by linarith
  with ok have "ids_ok (foldl step (step s a) acts)"
    by (rule Cons.IH)
  then show ?case by simp
qed

lemma issued_bounds:
  assumes "nextPairId s + adds acts \<le> 2 ^ 53"
  shows "sorted_wrt (<) (issued s acts) \<and>
   list_all (\<lambda>i. nextPairId s \<le> i \<and> i < nextPairId (foldl step s acts)) (issued s acts)"
  using assms
proof (induction acts arbitrary: s)
  case Nil
  then show ?case by simp
next
  case (Cons a acts)
  from Cons.prems have b: "nextPairId s + adds [a] + adds acts \<le> 2 ^ 53"
    by (simp only: adds_Cons [of a acts] add.assoc)
  then have a: "nextPairId s + adds [a] \<le> 2 ^ 53" by linarith
  note n = next_step_counts [OF a]
  have "nextPairId (step s a) + adds acts \<le> 2 ^ 53"
    using b n by linarith
  note IH = Cons.IH [OF this]
  have mono: "nextPairId (step s a) \<le> nextPairId (foldl step (step s a) acts)"
    by (rule next_foldl_mono)
  show ?case
  proof (cases "a = Add")
    case True
    have "pid (last (colorPairs (step s a))) = nextPairId s"
      using True by (simp add: created_pid)
    moreover have "nextPairId (step s a) = Suc (nextPairId s)"
      using n True by simp
    ultimately show ?thesis
      using IH mono True by (auto simp: list_all_iff simp del: step.simps)
  next
    case False
    then have "nextPairId (step s a) = nextPairId s"
      using n by (cases a) simp_all
    with IH False show ?thesis
      by (cases a) (auto simp: list_all_iff simp del: step.simps)
  qed
qed

lemma ids_step:
  "set (map pid (colorPairs (step s a))) \<subseteq>
     set (map pid (colorPairs s)) \<union>
     (case a of Add \<Rightarrow> {pid (last (colorPairs (step s a)))} | _ \<Rightarrow> {})"
  by (cases a)
    (auto simp: ids_addColorPair created_pid ids_removeColorPair ids_setSourceForPair
      ids_setTargetForPair simp del: set_map)

lemma ids_issued:
  "set (map pid (colorPairs (foldl step s acts))) \<subseteq>
     set (map pid (colorPairs s)) \<union> set (issued s acts)"
proof (induction acts arbitrary: s)
  case Nil
  then show ?case by simp
next
  case (Cons a acts)
  from Cons.IH [of "step s a"] ids_step [of s a] show ?case
    by (cases a) (auto simp del: step.simps)
qed

text \<open>
  A session that adds and removes a pair again and again, from the counter \<open>lo\<close> to \<open>hi\<close>.
\<close>

lemma add_remove_cycle:
  assumes "lo \<le> hi" and "hi \<le> 2 ^ 53"
  shows "foldl step \<lparr>colorPairs = [], nextPairId = lo\<rparr>
           (concat (map (\<lambda>k. [Add, Remove k]) [lo..<hi])) =
         \<lparr>colorPairs = [], nextPairId = hi\<rparr>"
  using assms
proof (induction hi rule: dec_induct)
  case base
  then show ?case by simp
next
  case (step n)
  from step.prems step.hyps have n: "n < 2 ^ 53" by simp
  then have IH: "foldl step \<lparr>colorPairs = [], nextPairId = lo\<rparr>
           (concat (map (\<lambda>k. [Add, Remove k]) [lo..<n])) =
         \<lparr>colorPairs = [], nextPairId = n\<rparr>"
    using step.IH by simp
  have "[lo..<Suc n] = [lo..<n] @ [n]"
    using step.hyps(1) by simp
  then have "foldl step \<lparr>colorPairs = [], nextPairId = lo\<rparr>
           (concat (map (\<lambda>k. [Add, Remove k]) [lo..<Suc n])) =
         step (step \<lparr>colorPairs = [], nextPairId = n\<rparr> Add) (Remove n)"
    by (simp only: map_append concat_append foldl_append IH) simp
  also have "\<dots> = \<lparr>colorPairs = [], nextPairId = Suc n\<rparr>"
    using n by (simp add: addColorPair_def removeColorPair_def js_increment_def Let_def)
  finally show ?case .
qed

text \<open>
  Claim C8, as it stands, fails on the code. The claim is that in every state reached by
  a sequence of add, remove, set-source and set-target actions the ids of the collection
  are pairwise distinct, strictly increasing, below the next-id counter and never reused.
  The counter stops at \<open>2 ^ 53\<close>: in the session that adds and removes a pair
  \<open>2 ^ 53 - 1\<close> times and then adds two pairs, both pairs get the id \<open>2 ^ 53\<close>, which
  is also the value of the counter.
\<close>

theorem store_ids_counterexample:
  "map pid (colorPairs (run (concat (map (\<lambda>k. [Add, Remove k]) [1..<2 ^ 53]) @ [Add, Add])))
     = [2 ^ 53, 2 ^ 53] \<and>
   nextPairId (run (concat (map (\<lambda>k. [Add, Remove k]) [1..<2 ^ 53]) @ [Add, Add])) = 2 ^ 53 \<and>
   issued initialStore [Add, Add] = [1, 2] \<and>
   \<not> distinct
      (map pid (colorPairs (run (concat (map (\<lambda>k. [Add, Remove k]) [1..<2 ^ 53]) @ [Add, Add]))))"
proof -
  have "(1 :: nat) \<le> 2 ^ 53" by simp
  from add_remove_cycle [OF this order_refl]
  have c: "foldl step initialStore (concat (map (\<lambda>k. [Add, Remove k]) [1..<2 ^ 53])) =
      \<lparr>colorPairs = [], nextPairId = 2 ^ 53\<rparr>"
    by (simp only: initialStore_def)
  have r: "run (concat (map (\<lambda>k. [Add, Remove k]) [1..<2 ^ 53]) @ [Add, Add]) =
      step (step \<lparr>colorPairs = [], nextPairId = 2 ^ 53\<rparr> Add) Add"
    by (simp only: run_def foldl_append c) simp
  have i: "issued initialStore [Add, Add] = [1, 2]"
    by (simp add: initialStore_def addColorPair_def js_increment_def Let_def)
  show ?thesis
    unfolding r using i by (simp add: addColorPair_def js_increment_def Let_def)
qed

text \<open>
  Claim C8, amended. In every state reached from the initial store by a sequence of add,
  remove, set-source and set-target actions with fewer than \<open>2 ^ 53\<close> adds, the ids of
  the collection are strictly increasing in insertion order (hence pairwise distinct) and
  all smaller than the next-id counter, which is one more than the number of adds. The
  ids of the pairs created during the session are pairwise distinct (none is reused, also
  not the id of a removed pair), every id in the collection is one of them, and all are
  below the counter. The next add creates a pair whose id is the counter, an id that no
  pair of the session had. Removing a pair leaves the ids of the other pairs and the
  counter as they were.
\<close>

theorem store_ids:
  assumes "adds acts < 2 ^ 53"
  shows "sorted_wrt (<) (map pid (colorPairs (run acts))) \<and>
   distinct (map pid (colorPairs (run acts))) \<and>
   list_all (\<lambda>p. pid p < nextPairId (run acts)) (colorPairs (run acts)) \<and>
   nextPairId (run acts) = Suc (adds acts) \<and>
   distinct (issued initialStore acts) \<and>
   set (map pid (colorPairs (run acts))) \<subseteq> set (issued initialStore acts) \<and>
   list_all (\<lambda>i. i < nextPairId (run acts)) (issued initialStore acts) \<and>
   colorPairs (addColorPair (run acts)) =
     colorPairs (run acts) @ [\<lparr>pid = nextPairId (run acts), source = None, target = None\<rparr>] \<and>
   issued initialStore (acts @ [Add]) = issued initialStore acts @ [nextPairId (run acts)] \<and>
   nextPairId (run acts) \<notin> set (issued initialStore acts) \<and>
   map pid (colorPairs (removeColorPair i (run acts))) =
     filter (\<lambda>j. j \<noteq> i) (map pid (colorPairs (run acts))) \<and>
   nextPairId (removeColorPair i (run acts)) = nextPairId (run acts)"
proof -
  from assms have b: "nextPairId initialStore + adds acts \<le> 2 ^ 53"
    by (simp add: initialStore_def)
  have "ids_ok initialStore"
    by (simp add: ids_ok_def initialStore_def)
  then have ok: "ids_ok (run acts)"
    unfolding run_def using b by (rule ids_ok_foldl)
  have s: "sorted_wrt (<) (map pid (colorPairs (run acts)))"
    using ok by (simp add: ids_ok_def)
  have d: "distinct (map pid (colorPairs (run acts)))"
    using s strict_sorted_iff by blast
  have l: "list_all (\<lambda>p. pid p < nextPairId (run acts)) (colorPairs (run acts))"
    using ok by (simp add: ids_ok_def list_all_iff)
  have n: "nextPairId (run acts) = Suc (adds acts)"
    using next_foldl_counts [OF b] by (simp add: run_def initialStore_def)
  have i1: "distinct (issued initialStore acts)"
    using issued_bounds [OF b] strict_sorted_iff by blast
  have i2: "set (map pid (colorPairs (run acts))) \<subseteq> set (issued initialStore acts)"
    using ids_issued [of initialStore acts] by (simp add: run_def initialStore_def)
  have i3: "list_all (\<lambda>i. i < nextPairId (run acts)) (issued initialStore acts)"
    using issued_bounds [OF b] by (simp add: run_def list_all_iff)
  have c: "colorPairs (addColorPair (run acts)) =
     colorPairs (run acts) @ [\<lparr>pid = nextPairId (run acts), source = None, target = None\<rparr>]"
    by (simp add: addColorPair_def Let_def)
  have "issued s (xs @ [Add]) = issued s xs @ [nextPairId (foldl step s xs)]" for s xs
  proof (induction xs arbitrary: s)
    case Nil
    then show ?case by (simp add: created_pid)
  next
    case (Cons x xs)
    then show ?case by (cases x) simp_all
  qed
  then have i4: "issued initialStore (acts @ [Add]) =
      issued initialStore acts @ [nextPairId (run acts)]"
    by (simp add: run_def)
  have i5: "nextPairId (run acts) \<notin> set (issued initialStore acts)"
    using i3 by (auto simp: list_all_iff)
  show ?thesis
    using s d l n i1 i2 i3 c i4 i5
    by (simp add: ids_removeColorPair next_removeColorPair)
qed

theorem store_ids_witness:
  "adds [Add, Add, Remove 1, Add] < 2 ^ 53 \<and>
   map pid (colorPairs (run [Add, Add, Remove 1, Add])) = [2, 3] \<and>
   nextPairId (run [Add, Add, Remove 1, Add]) = 4 \<and>
   issued initialStore [Add, Add, Remove 1, Add] = [1, 2, 3] \<and>
   sorted_wrt (<) (map pid (colorPairs (run [Add, Add, Remove 1, Add]))) \<and>
   distinct (issued initialStore [Add, Add, Remove 1, Add])"
  using store_ids [of "[Add, Add, Remove 1, Add]" 1]
  by (simp add: run_def initialStore_def addColorPair_def removeColorPair_def
      js_increment_def Let_def)

subsection \<open>Setting the source of a pair\<close>

text \<open>
  Claim C10. For every store and every id, \<^verbatim>\<open>setSourceForPair\<close> leaves the counter,
  the length and the order of the collection, the id and the target of every pair
  unchanged, and every pair with another id unchanged. When the id is present, exactly one
  element of the collection changes (the first pair with the id, the only one when ids
  are distinct), and only in its source field; when the id is absent the store is unchanged.
\<close>

theorem setSourceForPair_frame:
  "nextPairId (setSourceForPair i fg s) = nextPairId s \<and>
   length (colorPairs (setSourceForPair i fg s)) = length (colorPairs s) \<and>
   map pid (colorPairs (setSourceForPair i fg s)) = map pid (colorPairs s) \<and>
   map target (colorPairs (setSourceForPair i fg s)) = map target (colorPairs s) \<and>
   (\<forall>j < length (colorPairs s). pid (colorPairs s ! j) \<noteq> i \<longrightarrow>
      colorPairs (setSourceForPair i fg s) ! j = colorPairs s ! j) \<and>
   (i \<in> pid ` set (colorPairs s) \<longrightarrow>
      (\<exists>k < length (colorPairs s). pid (colorPairs s ! k) = i \<and>
         (\<forall>j < k. pid (colorPairs s ! j) \<noteq> i) \<and>
         setSourceForPair i fg s =
           s\<lparr>colorPairs := (colorPairs s)[k := (colorPairs s ! k)\<lparr>source := Some fg\<rparr>]\<rparr>)) \<and>
   (i \<notin> pid ` set (colorPairs s) \<longrightarrow> setSourceForPair i fg s = s)"
proof (cases "findPair i (colorPairs s)")
  case None
  then have "setSourceForPair i fg s = s"
    by (simp add: setSourceForPair_def)
  moreover from None have "i \<notin> pid ` set (colorPairs s)"
    by (simp add: findPair_None)
  ultimately show ?thesis by simp
next
  case (Some k)
  from findPair_Some [OF Some]
  have k: "k < length (colorPairs s)" "pid (colorPairs s ! k) = i"
    "\<forall>j<k. pid (colorPairs s ! j) \<noteq> i"
    by simp_all
  have eq: "setSourceForPair i fg s =
      s\<lparr>colorPairs := (colorPairs s)[k := (colorPairs s ! k)\<lparr>source := Some fg\<rparr>]\<rparr>"
    using Some by (simp add: setSourceForPair_def)
  have "i \<in> pid ` set (colorPairs s)"
    using k(1,2) nth_mem by blast
  moreover have "\<forall>j < length (colorPairs s). pid (colorPairs s ! j) \<noteq> i \<longrightarrow>
      colorPairs (setSourceForPair i fg s) ! j = colorPairs s ! j"
  proof (intro allI impI)
    fix j assume "j < length (colorPairs s)" "pid (colorPairs s ! j) \<noteq> i"
    with k(2) have "j \<noteq> k" by auto
    then show "colorPairs (setSourceForPair i fg s) ! j = colorPairs s ! j"
      by (simp add: eq)
  qed
  moreover have "map pid (colorPairs (setSourceForPair i fg s)) = map pid (colorPairs s)"
    by (rule ids_setSourceForPair)
  moreover have "map target (colorPairs (setSourceForPair i fg s)) = map target (colorPairs s)"
    using k(1) by (simp add: eq map_target_update_source)
  moreover have "nextPairId (setSourceForPair i fg s) = nextPairId s"
    by (rule next_setSourceForPair)
  moreover have "length (colorPairs (setSourceForPair i fg s)) = length (colorPairs s)"
    by (simp add: eq)
  ultimately show ?thesis
    using k eq by blast
qed

theorem setSourceForPair_frame_witness:
  "setSourceForPair 2 \<lparr>r = 10, g = 20, b = 30\<rparr>
     \<lparr>colorPairs = [\<lparr>pid = 1, source = None, target = None\<rparr>,
                    \<lparr>pid = 2, source = None, target = Some \<lparr>r = 1, g = 2, b = 3\<rparr>\<rparr>],
      nextPairId = 3\<rparr>
   = \<lparr>colorPairs = [\<lparr>pid = 1, source = None, target = None\<rparr>,
                    \<lparr>pid = 2, source = Some \<lparr>r = 10, g = 20, b = 30\<rparr>,
                       target = Some \<lparr>r = 1, g = 2, b = 3\<rparr>\<rparr>],
      nextPairId = 3\<rparr> \<and>
   setSourceForPair 7 \<lparr>r = 10, g = 20, b = 30\<rparr>
     \<lparr>colorPairs = [\<lparr>pid = 1, source = None, target = None\<rparr>], nextPairId = 3\<rparr>
   = \<lparr>colorPairs = [\<lparr>pid = 1, source = None, target = None\<rparr>], nextPairId = 3\<rparr>"
  using setSourceForPair_frame [of 2 "\<lparr>r = 10, g = 20, b = 30\<rparr>"
      "\<lparr>colorPairs = [\<lparr>pid = 1, source = None, target = None\<rparr>,
                    \<lparr>pid = 2, source = None, target = Some \<lparr>r = 1, g = 2, b = 3\<rparr>\<rparr>],
      nextPairId = 3\<rparr>"]
    setSourceForPair_frame [of 7 "\<lparr>r = 10, g = 20, b = 30\<rparr>"
      "\<lparr>colorPairs = [\<lparr>pid = 1, source = None, target = None\<rparr>], nextPairId = 3\<rparr>"]
  by (simp add: setSourceForPair_def)

section \<open>The click on Calculate\<close>

text \<open>
  Claim C7. When the store holds no complete pair (none with both source and target set),
  the handler shows the message asking for a complete pair and does not call the solver;
  whenever it does call the solver, the lists of source and target colours are non-empty
  and of equal length, so the solver is never called with empty input from this path.
\<close>

theorem calculateClick_no_complete_pair:
  "(filter (\<lambda>p. source p \<noteq> None \<and> target p \<noteq> None) (colorPairs s) = [] \<longrightarrow>
      calculateClick s preventClipping =
        ShowResult ''Please add at least one complete color pair (source + target).'') \<and>
   (\<forall>sourceColors targetColors pc res.
      calculateClick s preventClipping = SolverCalled sourceColors targetColors pc res \<longrightarrow>
        sourceColors \<noteq> [] \<and> length targetColors = length sourceColors \<and>
        filter (\<lambda>p. source p \<noteq> None \<and> target p \<noteq> None) (colorPairs s) \<noteq> [] \<and>
        res = computeChannelSwapperMatrix sourceColors targetColors pc 100)"
  by (auto simp: calculateClick_def Let_def)

theorem calculateClick_no_complete_pair_witness:
  "filter (\<lambda>p. source p \<noteq> None \<and> target p \<noteq> None)
     (colorPairs \<lparr>colorPairs = [\<lparr>pid = 1, source = Some \<lparr>r = 1, g = 2, b = 3\<rparr>, target = None\<rparr>],
        nextPairId = 2\<rparr>) = [] \<and>
   calculateClick
     \<lparr>colorPairs = [\<lparr>pid = 1, source = Some \<lparr>r = 1, g = 2, b = 3\<rparr>, target = None\<rparr>],
        nextPairId = 2\<rparr> True =
     ShowResult ''Please add at least one complete color pair (source + target).''"
  using calculateClick_no_complete_pair
    [of "\<lparr>colorPairs = [\<lparr>pid = 1, source = Some \<lparr>r = 1, g = 2, b = 3\<rparr>, target = None\<rparr>],
        nextPairId = 2\<rparr>" True]
  by simp

section \<open>The matrix solver\<close>

subsection \<open>Sequencing\<close>

lemma foldE_invariant:
  assumes "P s"
    and "\<And>x t. x \<in> set xs \<Longrightarrow> P t \<Longrightarrow> \<exists>t'. f x t = Inr t' \<and> P t'"
  shows "\<exists>s'. foldE f xs s = Inr s' \<and> P s'"
  using assms
proof (induction xs arbitrary: s)
  case Nil
  then show ?case by simp
next
  case (Cons x xs)
  from Cons.prems obtain t where t: "f x s = Inr t" "P t"
    by (meson list.set_intros(1))
  have "\<exists>s'. foldE f xs t = Inr s' \<and> P s'"
    by (rule Cons.IH [OF t(2)]) (simp add: Cons.prems(2))
  with t show ?case by simp
qed

subsection \<open>The linear solver never divides by zero\<close>

lemma js_div_nonzero: "y \<noteq> 0 \<Longrightarrow> js_div x y = Inr (x / y)"
  by (simp add: js_div_def)

lemma js_1e_12_pos: "0 < js_1e_12"
  by (simp add: js_1e_12_def)

lemma eliminate_inner:
  "row \<noteq> col \<Longrightarrow>
   foldl (\<lambda>a j. a[row := (a ! row)[j := a ! row ! j - factor * a ! col ! j]]) aug js ! col
     = aug ! col \<and>
   length (foldl (\<lambda>a j. a[row := (a ! row)[j := a ! row ! j - factor * a ! col ! j]]) aug js)
     = length aug"
  by (induction js arbitrary: aug) simp_all

lemma eliminateRow_Inr:
  assumes "row \<noteq> col" and "aug ! col ! col \<noteq> 0"
  shows "\<exists>aug'. eliminateRow n col row aug = Inr aug' \<and> aug' ! col = aug ! col \<and>
           length aug' = length aug"
proof -
  let ?factor = "aug ! row ! col / aug ! col ! col"
  let ?aug' = "foldl (\<lambda>a j. a[row := (a ! row)[j := a ! row ! j - ?factor * a ! col ! j]])
                 aug [col..<Suc n]"
  have "eliminateRow n col row aug = Inr ?aug'"
    by (simp only: eliminateRow_def js_div_nonzero [OF assms(2)] sum.case)
  moreover have "?aug' ! col = aug ! col \<and> length ?aug' = length aug"
    by (rule eliminate_inner [OF assms(1)])
  ultimately show ?thesis by blast
qed

lemma eliminateColumn_Inr:
  assumes "aug ! col ! col \<noteq> 0"
  shows "\<exists>aug'. eliminateColumn n col aug = Inr aug' \<and> length aug' = length aug"
proof -
  let ?P = "\<lambda>a. a ! col = aug ! col \<and> length a = length aug"
  have "\<exists>aug'. foldE (eliminateRow n col) [Suc col..<n] aug = Inr aug' \<and> ?P aug'"
  proof (rule foldE_invariant)
    show "?P aug" by simp
  next
    fix row t
    assume "row \<in> set [Suc col..<n]" and t: "?P t"
    then have "row \<noteq> col" by auto
    moreover from t assms have "t ! col ! col \<noteq> 0" by simp
    ultimately show "\<exists>t'. eliminateRow n col row t = Inr t' \<and> ?P t'"
      using eliminateRow_Inr [of row col t n] t by auto
  qed
  then show ?thesis by (auto simp: eliminateColumn_def)
qed

lemma length_swapRows: "length (swapRows col maxRow aug) = length aug"
  by (simp add: swapRows_def)

lemma forwardStep_Inr:
  "\<exists>aug'. forwardStep n col aug = Inr aug' \<and> length aug' = length aug"
proof -
  let ?aug1 = "swapRows col (findMaxRow n col aug) aug"
  show ?thesis
  proof (cases "\<bar>?aug1 ! col ! col\<bar> < js_1e_12")
    case True
    then show ?thesis
      by (simp add: forwardStep_def Let_def length_swapRows)
  next
    case False
    then have "?aug1 ! col ! col \<noteq> 0"
      using js_1e_12_pos by auto
    from eliminateColumn_Inr [OF this, of n] False show ?thesis
      by (auto simp: forwardStep_def Let_def length_swapRows)
  qed
qed

lemma forwardElimination_Inr:
  "\<exists>aug'. forwardElimination n aug = Inr aug' \<and> length aug' = length aug"
  unfolding forwardElimination_def
proof (rule foldE_invariant [where P = "\<lambda>a. length a = length aug"])
  show "length aug = length aug" ..
next
  fix col and t :: matrix
  assume "length t = length aug"
  with forwardStep_Inr [of n col t]
  show "\<exists>t'. forwardStep n col t = Inr t' \<and> length t' = length aug" by auto
qed

lemma back_inner:
  "length (foldl (\<lambda>y j. y[i := y ! i - row ! j * y ! j]) x js) = length x \<and>
   (\<forall>k. k \<noteq> i \<longrightarrow> foldl (\<lambda>y j. y[i := y ! i - row ! j * y ! j]) x js ! k = x ! k)"
  by (induction js arbitrary: x) simp_all

lemma backStep_Inr:
  "\<exists>x'. backStep n aug i x = Inr x' \<and> length x' = length x \<and>
     (\<forall>k. k \<noteq> i \<longrightarrow> x' ! k = x ! k) \<and>
     (i < length x \<longrightarrow> \<bar>aug ! i ! i\<bar> < js_1e_12 \<longrightarrow> x' ! i = (if i = 0 then 1 else 0))"
proof (cases "\<bar>aug ! i ! i\<bar> < js_1e_12")
  case True
  then show ?thesis by (simp add: backStep_def)
next
  case False
  then have nz: "aug ! i ! i \<noteq> 0"
    using js_1e_12_pos by auto
  show ?thesis
    using False back_inner [of i "aug ! i" "x[i := aug ! i ! n]" "[Suc i..<n]"]
    by (simp add: backStep_def Let_def js_div_nonzero [OF nz])
qed

lemma foldE_backStep:
  assumes "distinct js"
  shows "\<exists>x'. foldE (backStep n aug) js x = Inr x' \<and> length x' = length x \<and>
     (\<forall>k. k \<notin> set js \<longrightarrow> x' ! k = x ! k) \<and>
     (\<forall>i \<in> set js. i < length x \<longrightarrow> \<bar>aug ! i ! i\<bar> < js_1e_12 \<longrightarrow>
        x' ! i = (if i = 0 then 1 else 0))"
  using assms
proof (induction js arbitrary: x)
  case Nil
  then show ?case by simp
next
  case (Cons j js)
  from backStep_Inr [of n aug j x] obtain x1 where x1:
    "backStep n aug j x = Inr x1" "length x1 = length x"
    "\<forall>k. k \<noteq> j \<longrightarrow> x1 ! k = x ! k"
    "j < length x \<longrightarrow> \<bar>aug ! j ! j\<bar> < js_1e_12 \<longrightarrow> x1 ! j = (if j = 0 then 1 else 0)"
    by blast
  from Cons.prems have d: "distinct js" and nj: "j \<notin> set js" by simp_all
  from Cons.IH [OF d, of x1] obtain x2 where x2:
    "foldE (backStep n aug) js x1 = Inr x2" "length x2 = length x1"
    "\<forall>k. k \<notin> set js \<longrightarrow> x2 ! k = x1 ! k"
    "\<forall>i \<in> set js. i < length x1 \<longrightarrow> \<bar>aug ! i ! i\<bar> < js_1e_12 \<longrightarrow>
        x2 ! i = (if i = 0 then 1 else 0)"
    by blast
  have "foldE (backStep n aug) (j # js) x = Inr x2"
    using x1(1) x2(1) by simp
  moreover have "length x2 = length x" using x1(2) x2(2) by simp
  moreover have "\<forall>k. k \<notin> set (j # js) \<longrightarrow> x2 ! k = x ! k"
    using x1(3) x2(3) by simp
  moreover have "\<forall>i \<in> set (j # js). i < length x \<longrightarrow> \<bar>aug ! i ! i\<bar> < js_1e_12 \<longrightarrow>
        x2 ! i = (if i = 0 then 1 else 0)"
    using x1(2,4) x2(3,4) nj by auto
  ultimately show ?case by blast
qed

lemma backSubstitution_Inr:
  "\<exists>x. backSubstitution n aug = Inr x \<and> length x = n \<and>
     (\<forall>i < n. \<bar>aug ! i ! i\<bar> < js_1e_12 \<longrightarrow> x ! i = (if i = 0 then 1 else 0))"
  using foldE_backStep [of "rev [0..<n]" n aug "replicate n 0"]
  by (auto simp: backSubstitution_def)

lemma solveLinearSystem_Inr:
  "\<exists>x. solveLinearSystem A rhs = Inr x \<and> length x = length A"
proof -
  let ?aug = "map (\<lambda>(row, i). row @ [rhs ! i]) (zip A [0..<length A])"
  obtain aug' where a: "forwardElimination (length A) ?aug = Inr aug'"
    using forwardElimination_Inr by blast
  obtain x where "backSubstitution (length A) aug' = Inr x" "length x = length A"
    using backSubstitution_Inr by blast
  with a show ?thesis
    by (simp add: solveLinearSystem_def Let_def)
qed

subsection \<open>The least-squares solver on rows of three\<close>

lemma length_regularize: "length (regularize m M) = length M"
proof -
  have "length (foldl (\<lambda>M i. M[i := (M ! i)[i := M ! i ! i + epsilon]]) M js) = length M" for js
    by (induction js arbitrary: M) simp_all
  then show ?thesis by (simp add: regularize_def)
qed

lemma solveLeastSquares_rows3:
  assumes "A \<noteq> []" and "\<forall>row \<in> set A. length row = 3" and "length A \<le> length rhs"
  shows "solveLeastSquares A rhs = solveLinearSystem (regularize 3 (ATA_of 3 A)) (ATb_of 3 A rhs)"
proof -
  from assms(1) obtain row0 rest where A: "A = row0 # rest" by (cases A) auto
  with assms(2) have m: "length row0 = 3" by simp
  have "\<not> list_ex (\<lambda>row. length row < 3) (row0 # rest)"
    using assms(2) by (auto simp: list_ex_iff A)
  then show ?thesis
    using assms(3) m by (simp add: solveLeastSquares_def A Let_def)
qed

lemma solveLeastSquares_Inr:
  assumes "A \<noteq> []" and "\<forall>row \<in> set A. length row = 3" and "length A \<le> length rhs"
  shows "\<exists>w. solveLeastSquares A rhs = Inr w \<and> length w = 3"
  using solveLinearSystem_Inr [of "regularize 3 (ATA_of 3 A)" "ATb_of 3 A rhs"]
  by (simp add: solveLeastSquares_rows3 [OF assms] length_regularize ATA_of_def)

subsection \<open>Rows of the result\<close>

lemma scaleRow_Inr:
  assumes "0 \<le> maxSum"
  shows "\<exists>row'. scaleRow preventClipping maxSum row = Inr row' \<and> length row' = length row"
proof -
  have "js_div maxSum \<bar>x\<bar> = Inr (maxSum / \<bar>x\<bar>)" if "\<bar>x\<bar> > maxSum" for x
    using that assms by (intro js_div_nonzero) auto
  then show ?thesis
    by (simp add: scaleRow_def Let_def)
qed

lemma scaleRow_no_TypeError: "scaleRow preventClipping maxSum row \<noteq> Inl TypeError"
  by (simp add: scaleRow_def Let_def js_div_def)

lemma clampRow_range: "\<forall>v \<in> set (clampRow row). - 200 \<le> v \<and> v \<le> 200"
  by (auto simp: clampRow_def)

lemma length_clampRow: "length (clampRow row) = length row"
  by (simp add: clampRow_def)

lemma channelRow_Inr:
  assumes "src \<noteq> []" and "\<forall>row \<in> set src. length row = 3" and "length src \<le> length tgt"
    and "0 \<le> maxSum"
  shows "\<exists>row. channelRow src tgt preventClipping maxSum channel mat = Inr (mat @ [row]) \<and>
           length row = 3 \<and> (\<forall>v \<in> set row. - 200 \<le> v \<and> v \<le> 200)"
proof -
  from assms(3) have "length src \<le> length (map (\<lambda>t. t ! channel) tgt)" by simp
  from solveLeastSquares_Inr [OF assms(1,2) this]
  obtain w where w: "solveLeastSquares src (map (\<lambda>t. t ! channel) tgt) = Inr w" "length w = 3"
    by blast
  from scaleRow_Inr [OF assms(4), of preventClipping "map (\<lambda>w. w * 100) w"]
  obtain row where row: "scaleRow preventClipping maxSum (map (\<lambda>w. w * 100) w) = Inr row"
    "length row = 3"
    using w(2) by auto
  have "channelRow src tgt preventClipping maxSum channel mat = Inr (mat @ [clampRow row])"
    using w(1) row(1) by (simp add: channelRow_def Let_def)
  then show ?thesis
    using row(2) clampRow_range [of row] by (auto simp: length_clampRow)
qed

lemma channelRow_in_range:
  assumes "channelRow src tgt preventClipping maxSum channel mat = Inr mat'"
  shows "\<exists>row. mat' = mat @ [row] \<and> (\<forall>v \<in> set row. - 200 \<le> v \<and> v \<le> 200)"
  using assms clampRow_range
  by (auto simp: channelRow_def Let_def split: sum.splits)

lemma computeChannelSwapperMatrix_Inr:
  assumes "sourceColors \<noteq> []" and "length targetColors = length sourceColors"
    and "0 \<le> maxSum"
  shows "\<exists>m. computeChannelSwapperMatrix sourceColors targetColors preventClipping maxSum = Inr m
           \<and> length m = 3 \<and> rows_ok m"
proof -
  let ?src = "map normalize sourceColors" and ?tgt = "map normalize targetColors"
  have s: "?src \<noteq> []" "\<forall>row \<in> set ?src. length row = 3" "length ?src \<le> length ?tgt"
    using assms(1,2) by (auto simp: normalize_def)
  note step = channelRow_Inr [OF s assms(3), of preventClipping]
  from step [of 0 "[]"] obtain r0 where r0:
    "channelRow ?src ?tgt preventClipping maxSum 0 [] = Inr [r0]" "length r0 = 3"
    "\<forall>v \<in> set r0. - 200 \<le> v \<and> v \<le> 200" by auto
  from step [of 1 "[r0]"] obtain r1 where r1:
    "channelRow ?src ?tgt preventClipping maxSum 1 [r0] = Inr [r0, r1]" "length r1 = 3"
    "\<forall>v \<in> set r1. - 200 \<le> v \<and> v \<le> 200" by auto
  from step [of 2 "[r0, r1]"] obtain r2 where r2:
    "channelRow ?src ?tgt preventClipping maxSum 2 [r0, r1] = Inr [r0, r1, r2]" "length r2 = 3"
    "\<forall>v \<in> set r2. - 200 \<le> v \<and> v \<le> 200" by auto
  have "computeChannelSwapperMatrix sourceColors targetColors preventClipping maxSum
      = Inr [r0, r1, r2]"
    using r0(1) r1(1) r2(1) by (simp add: computeChannelSwapperMatrix_def Let_def)
  then show ?thesis
    using r0(2,3) r1(2,3) r2(2,3) by (simp add: rows_ok_def)
qed

lemma foldE_channelRow_range:
  assumes "foldE (channelRow src tgt preventClipping maxSum) cs mat = Inr m"
    and "\<forall>row \<in> set mat. \<forall>v \<in> set row. - 200 \<le> v \<and> v \<le> 200"
  shows "\<forall>row \<in> set m. \<forall>v \<in> set row. - 200 \<le> v \<and> v \<le> 200"
  using assms
proof (induction cs arbitrary: mat)
  case Nil
  then show ?case by simp
next
  case (Cons c cs)
  from Cons.prems(1) obtain mat' where m':
    "channelRow src tgt preventClipping maxSum c mat = Inr mat'"
    "foldE (channelRow src tgt preventClipping maxSum) cs mat' = Inr m"
    by (auto split: sum.splits)
  from channelRow_in_range [OF m'(1)] Cons.prems(2)
  have "\<forall>row \<in> set mat'. \<forall>v \<in> set row. - 200 \<le> v \<and> v \<le> 200" by auto
  from Cons.IH [OF m'(2) this] show ?case .
qed

lemma foldE_no_error:
  assumes "\<And>x t. f x t \<noteq> Inl e"
  shows "foldE f xs s \<noteq> Inl e"
proof (induction xs arbitrary: s)
  case Nil
  then show ?case by simp
next
  case (Cons x xs)
  then show ?case
    using assms [of x s] by (cases "f x s") auto
qed

lemma channelRow_no_TypeError:
  assumes "src \<noteq> []" and "\<forall>row \<in> set src. length row = 3" and "length src \<le> length tgt"
  shows "channelRow src tgt preventClipping maxSum channel mat \<noteq> Inl TypeError"
proof -
  from assms(3) have "length src \<le> length (map (\<lambda>t. t ! channel) tgt)" by simp
  from solveLeastSquares_Inr [OF assms(1,2) this]
  obtain w where "solveLeastSquares src (map (\<lambda>t. t ! channel) tgt) = Inr w"
    by blast
  then show ?thesis
    using scaleRow_no_TypeError [of preventClipping maxSum "map (\<lambda>w. w * 100) w"]
    by (auto simp: channelRow_def Let_def split: sum.splits)
qed

lemma computeChannelSwapperMatrix_no_TypeError:
  assumes "sourceColors \<noteq> []" and "length targetColors = length sourceColors"
  shows "computeChannelSwapperMatrix sourceColors targetColors preventClipping maxSum
           \<noteq> Inl TypeError"
  unfolding computeChannelSwapperMatrix_def Let_def
proof (rule foldE_no_error)
  fix c mat
  show "channelRow (map normalize sourceColors) (map normalize targetColors)
          preventClipping maxSum c mat \<noteq> Inl TypeError"
    using assms by (intro channelRow_no_TypeError) (auto simp: normalize_def)
qed

text \<open>
  What the clipping prevention achieves by itself: the sum of the rescaled row is within
  the bound. The clamp comes afterwards.
\<close>

lemma foldl_add_sum_list:
  fixes a :: real
  shows "foldl (\<lambda>sum x. sum + f x) a xs = a + sum_list (map f xs)"
  by (induction xs arbitrary: a) (simp_all add: add.assoc)

lemma scaleRow_bounded:
  assumes "0 \<le> maxSum" and "scaleRow True maxSum row = Inr row'"
  shows "\<bar>sum_list row'\<bar> \<le> maxSum"
proof -
  have S: "foldl (\<lambda>sum val. sum + val) 0 row = sum_list row"
    using foldl_add_sum_list [of "\<lambda>v. v" 0 row] by simp
  show ?thesis
  proof (cases "\<bar>sum_list row\<bar> > maxSum")
    case True
    with assms(1) have nz: "\<bar>sum_list row\<bar> \<noteq> 0" by linarith
    from True assms(2) have "row' = map (\<lambda>v. v * (maxSum / \<bar>sum_list row\<bar>)) row"
      by (simp add: scaleRow_def S js_div_nonzero [OF nz])
    moreover have "sum_list (map (\<lambda>v. v * c) row) = sum_list row * c" for c
      by (induction row) (simp_all add: algebra_simps)
    ultimately have "sum_list row' = sum_list row * (maxSum / \<bar>sum_list row\<bar>)"
      by (simp only:)
    then have "\<bar>sum_list row'\<bar> = \<bar>sum_list row\<bar> * (maxSum / \<bar>sum_list row\<bar>)"
      using assms(1) by (simp add: abs_mult)
    also have "\<dots> = maxSum"
      using nz by simp
    finally show ?thesis by simp
  next
    case False
    with assms(2) have "row' = row"
      by (simp add: scaleRow_def S)
    with False show ?thesis by simp
  qed
qed

subsection \<open>Scenario A, step by step\<close>

lemma upt_3: "[0..<3] = [0, 1, 2]"
  by code_simp

lemma solveLinearSystem_3:
  "solveLinearSystem [a0, a1, a2] rhs =
     (case forwardElimination 3 [a0 @ [rhs ! 0], a1 @ [rhs ! 1], a2 @ [rhs ! 2]] of
        Inl e \<Rightarrow> Inl e
      | Inr aug' \<Rightarrow> backSubstitution 3 aug')"
proof -
  have l: "length [a0, a1, a2] = 3" by simp
  show ?thesis
    unfolding solveLinearSystem_def Let_def l upt_3 by simp
qed

lemma scenarioA_normal_matrix:
  "regularize 3 (ATA_of 3 [[1, 0, 0]]) =
     [[10000000001 / 10000000000, 0, 0], [0, 1 / 10000000000, 0], [0, 0, 1 / 10000000000]]"
  by code_simp

lemma scenarioA_rhs: "ATb_of 3 [[1, 0, 0]] [v] = [v, 0, 0]"
  by (simp add: ATb_of_def upt_3)

lemma scenarioA_forward:
  "forwardElimination 3
     [[10000000001 / 10000000000, 0, 0, v],
      [0, 1 / 10000000000, 0, 0],
      [0, 0, 1 / 10000000000, 0]] =
   Inr [[10000000001 / 10000000000, 0, 0, v],
        [0, 1 / 10000000000, 0, 0],
        [0, 0, 1 / 10000000000, 0]]"
  by (simp add: forwardElimination_def upt_3 forwardStep_def js_1e_12_def findMaxRow_def
      swapRows_def eliminateColumn_def eliminateRow_def js_div_def upt_rec [of _ 3] upt_rec [of _ 4]
      upt_rec [of _ "Suc (Suc (Suc 0))"] upt_rec [of _ "Suc (Suc (Suc (Suc 0)))"])

lemma scenarioA_back:
  "backSubstitution 3
     [[10000000001 / 10000000000, 0, 0, v],
      [0, 1 / 10000000000, 0, 0],
      [0, 0, 1 / 10000000000, 0]] =
   Inr [v / (10000000001 / 10000000000), 0, 0]"
  by (simp add: backSubstitution_def upt_3 backStep_def js_1e_12_def js_div_def upt_rec [of _ 3]
      upt_rec [of _ "Suc (Suc (Suc 0))"] numeral_3_eq_3)

lemma scenarioA_weights:
  "solveLeastSquares [[1, 0, 0]] [v] = Inr [v / (10000000001 / 10000000000), 0, 0]"
proof -
  have "solveLeastSquares [[1, 0, 0]] [v] =
      solveLinearSystem (regularize 3 (ATA_of 3 [[1, 0, 0]])) (ATb_of 3 [[1, 0, 0]] [v])"
    by (rule solveLeastSquares_rows3) simp_all
  also have "\<dots> = Inr [v / (10000000001 / 10000000000), 0, 0]"
    unfolding scenarioA_normal_matrix scenarioA_rhs solveLinearSystem_3
    by (simp add: scenarioA_forward scenarioA_back)
  finally show ?thesis .
qed

lemma scenarioA_row:
  "channelRow [[1, 0, 0]] [[t0, t1, t2]] False 100 c mat =
     Inr (mat @ [clampRow [[t0, t1, t2] ! c / (10000000001 / 10000000000) * 100, 0, 0]])"
  by (simp add: channelRow_def scenarioA_weights scaleRow_def)

text \<open>
  Claim C4. For the single pair source (255, 0, 0), target (0, 255, 0) without clipping
  prevention, the matrix is exactly what Gaussian elimination gives on the regularised
  normal equations: the rows of the red and the blue output are (0, 0, 0), and the row of
  the green output is (100 / (1 + epsilon), 0, 0), which differs from (100, 0, 0) by less
  than one part in ten million.
\<close>

theorem scenario_A:
  "computeChannelSwapperMatrix [\<lparr>r = 255, g = 0, b = 0\<rparr>] [\<lparr>r = 0, g = 255, b = 0\<rparr>] False 100
     = Inr [[0, 0, 0], [100 / (1 + epsilon), 0, 0], [0, 0, 0]] \<and>
   \<bar>100 / (1 + epsilon) - 100\<bar> < 1 / 10 ^ 7"
  by (simp add: computeChannelSwapperMatrix_def normalize_def scenarioA_row clampRow_def
      epsilon_def)

subsection \<open>A row whose sum exceeds the bound after the clamp, step by step\<close>

lemma clip_normal_matrix:
  "regularize 3 (ATA_of 3 [[1 / 5, 0, 0], [0, 0, 1 / 5], [2 / 5, 1 / 5, 0]]) =
     [[2000000001 / 10000000000, 2 / 25, 0],
      [2 / 25, 400000001 / 10000000000, 0],
      [0, 0, 400000001 / 10000000000]]"
  by code_simp

lemma clip_rhs_red:
  "ATb_of 3 [[1 / 5, 0, 0], [0, 0, 1 / 5], [2 / 5, 1 / 5, 0]] [2 / 5, 2 / 5, 0] =
     [2 / 25, 0, 2 / 25]"
  by code_simp

lemma clip_rhs_zero:
  "ATb_of 3 [[1 / 5, 0, 0], [0, 0, 1 / 5], [2 / 5, 1 / 5, 0]] [0, 0, 0] = [0, 0, 0]"
  by code_simp

lemma clip_forward_red:
  "forwardElimination 3
     [[2000000001 / 10000000000, 2 / 25, 0, 2 / 25],
      [2 / 25, 400000001 / 10000000000, 0, 0],
      [0, 0, 400000001 / 10000000000, 2 / 25]] =
   Inr [[2000000001 / 10000000000, 2 / 25, 0, 2 / 25],
        [0, 160000002400000001 / 20000000010000000000, 0, - (64000000 / 2000000001)],
        [0, 0, 400000001 / 10000000000, 2 / 25]]"
  by code_simp

lemma clip_back_red:
  "backSubstitution 3
     [[2000000001 / 10000000000, 2 / 25, 0, 2 / 25],
      [0, 160000002400000001 / 20000000010000000000, 0, - (64000000 / 2000000001)],
      [0, 0, 400000001 / 10000000000, 2 / 25]] =
   Inr [320000000800000000 / 160000002400000001,
        - (640000000000000000 / 160000002400000001), 800000000 / 400000001]"
  by code_simp

lemma clip_forward_zero:
  "forwardElimination 3
     [[2000000001 / 10000000000, 2 / 25, 0, 0],
      [2 / 25, 400000001 / 10000000000, 0, 0],
      [0, 0, 400000001 / 10000000000, 0]] =
   Inr [[2000000001 / 10000000000, 2 / 25, 0, 0],
        [0, 160000002400000001 / 20000000010000000000, 0, 0],
        [0, 0, 400000001 / 10000000000, 0]]"
  by code_simp

lemma clip_back_zero:
  "backSubstitution 3
     [[2000000001 / 10000000000, 2 / 25, 0, 0],
      [0, 160000002400000001 / 20000000010000000000, 0, 0],
      [0, 0, 400000001 / 10000000000, 0]] =
   Inr [0, 0, 0]"
  by code_simp

lemma clip_weights_red:
  "solveLeastSquares [[1 / 5, 0, 0], [0, 0, 1 / 5], [2 / 5, 1 / 5, 0]] [2 / 5, 2 / 5, 0] =
     Inr [320000000800000000 / 160000002400000001,
          - (640000000000000000 / 160000002400000001), 800000000 / 400000001]"
proof -
  let ?A = "[[1 / 5, 0, 0], [0, 0, 1 / 5], [2 / 5, 1 / 5, 0 :: real]]"
  have "solveLeastSquares ?A [2 / 5, 2 / 5, 0] =
      solveLinearSystem (regularize 3 (ATA_of 3 ?A)) (ATb_of 3 ?A [2 / 5, 2 / 5, 0])"
    by (rule solveLeastSquares_rows3) simp_all
  also have "\<dots> = Inr [320000000800000000 / 160000002400000001,
          - (640000000000000000 / 160000002400000001), 800000000 / 400000001]"
    unfolding clip_normal_matrix clip_rhs_red solveLinearSystem_3
    by (simp add: clip_forward_red clip_back_red)
  finally show ?thesis .
qed

lemma clip_weights_zero:
  "solveLeastSquares [[1 / 5, 0, 0], [0, 0, 1 / 5], [2 / 5, 1 / 5, 0]] [0, 0, 0] =
     Inr [0, 0, 0]"
proof -
  let ?A = "[[1 / 5, 0, 0], [0, 0, 1 / 5], [2 / 5, 1 / 5, 0 :: real]]"
  have "solveLeastSquares ?A [0, 0, 0] =
      solveLinearSystem (regularize 3 (ATA_of 3 ?A)) (ATb_of 3 ?A [0, 0, 0])"
    by (rule solveLeastSquares_rows3) simp_all
  also have "\<dots> = Inr [0, 0, 0]"
    unfolding clip_normal_matrix clip_rhs_zero solveLinearSystem_3
    by (simp add: clip_forward_zero clip_back_zero)
  finally show ?thesis .
qed

lemma clip_row_red:
  "channelRow [[1 / 5, 0, 0], [0, 0, 1 / 5], [2 / 5, 1 / 5, 0]]
     [[2 / 5, 0, 0], [2 / 5, 0, 0], [0, 0, 0]] True 100 0 mat =
   Inr (mat @ [[32000000080000000000 / 160000002400000001, - 200, 80000000000 / 400000001]])"
  by (simp add: channelRow_def clip_weights_red scaleRow_def clampRow_def)

lemma clip_row_zero:
  assumes "0 < c" and "c < 3"
  shows "channelRow [[1 / 5, 0, 0], [0, 0, 1 / 5], [2 / 5, 1 / 5, 0]]
     [[2 / 5, 0, 0], [2 / 5, 0, 0], [0, 0, 0]] True 100 c mat =
   Inr (mat @ [[0, 0, 0]])"
proof -
  from assms have "c = 1 \<or> c = 2" by arith
  then have "map (\<lambda>t. t ! c) [[2 / 5, 0, 0], [2 / 5, 0, 0], [0, 0, 0 :: real]] = [0, 0, 0]"
    by auto
  then show ?thesis
    by (simp add: channelRow_def clip_weights_zero scaleRow_def clampRow_def)
qed

lemma clip_matrix:
  "computeChannelSwapperMatrix
     [\<lparr>r = 51, g = 0, b = 0\<rparr>, \<lparr>r = 0, g = 0, b = 51\<rparr>, \<lparr>r = 102, g = 51, b = 0\<rparr>]
     [\<lparr>r = 102, g = 0, b = 0\<rparr>, \<lparr>r = 102, g = 0, b = 0\<rparr>, \<lparr>r = 0, g = 0, b = 0\<rparr>] True 100
   = Inr [[32000000080000000000 / 160000002400000001, - 200, 80000000000 / 400000001],
          [0, 0, 0], [0, 0, 0]]"
  by (simp add: computeChannelSwapperMatrix_def Let_def normalize_def clip_row_red
      clip_row_zero)

text \<open>
  Claim C1. The claim is that with clipping prevention the absolute sum of every row of the
  returned matrix is at most the bound of 100, although the clamp comes after the
  rescaling. The returned matrix does not have this property: for the three pairs below
  the weights of the red output are close to (2, -4, 2), the row sum before the clamp is
  close to 0, so the row is not rescaled; the clamp then raises the middle entry from
  about -400 to -200, and the row of the returned matrix sums to more than 100 (to almost
  200).
\<close>

theorem clipping_row_sum_exceeded:
  "computeChannelSwapperMatrix
     [\<lparr>r = 51, g = 0, b = 0\<rparr>, \<lparr>r = 0, g = 0, b = 51\<rparr>, \<lparr>r = 102, g = 51, b = 0\<rparr>]
     [\<lparr>r = 102, g = 0, b = 0\<rparr>, \<lparr>r = 102, g = 0, b = 0\<rparr>, \<lparr>r = 0, g = 0, b = 0\<rparr>] True 100
   = Inr [[32000000080000000000 / 160000002400000001, - 200, 80000000000 / 400000001],
          [0, 0, 0], [0, 0, 0]] \<and>
   (100 :: real) <
     \<bar>sum_list [32000000080000000000 / 160000002400000001, - 200, 80000000000 / 400000001]\<bar>"
  by (simp add: computeChannelSwapperMatrix_def Let_def normalize_def clip_row_red
      clip_row_zero)

text \<open>
  Claim C9. On the empty input (both colour lists empty) the solver raises a TypeError, for
  either setting of the clipping prevention and any bound: it returns no matrix.
\<close>

theorem computeChannelSwapperMatrix_empty:
  "computeChannelSwapperMatrix [] [] preventClipping maxSum = Inl TypeError"
  by (simp add: computeChannelSwapperMatrix_def channelRow_def solveLeastSquares_def)

subsection \<open>The clamp\<close>

text \<open>
  Claim C2. Every entry of a matrix returned by \<^verbatim>\<open>computeChannelSwapperMatrix\<close> lies in
  the closed interval from -200 to 200, for either setting of the clipping prevention;
  and for non-empty colour lists of equal length (and a bound that is not negative, as the
  default 100) a matrix is returned.
\<close>

theorem computeChannelSwapperMatrix_clamped:
  "(computeChannelSwapperMatrix sourceColors targetColors preventClipping maxSum = Inr m \<longrightarrow>
      (\<forall>row \<in> set m. \<forall>v \<in> set row. - 200 \<le> v \<and> v \<le> 200)) \<and>
   (sourceColors \<noteq> [] \<and> length targetColors = length sourceColors \<and> 0 \<le> maxSum \<longrightarrow>
      (\<exists>m'. computeChannelSwapperMatrix sourceColors targetColors preventClipping maxSum
              = Inr m'))"
proof (intro conjI impI)
  assume "computeChannelSwapperMatrix sourceColors targetColors preventClipping maxSum = Inr m"
  then show "\<forall>row \<in> set m. \<forall>v \<in> set row. - 200 \<le> v \<and> v \<le> 200"
    unfolding computeChannelSwapperMatrix_def Let_def
    by (rule foldE_channelRow_range) simp
next
  assume "sourceColors \<noteq> [] \<and> length targetColors = length sourceColors \<and> 0 \<le> maxSum"
  then show "\<exists>m'. computeChannelSwapperMatrix sourceColors targetColors preventClipping maxSum
      = Inr m'"
    using computeChannelSwapperMatrix_Inr [of sourceColors targetColors maxSum preventClipping]
    by blast
qed

theorem computeChannelSwapperMatrix_clamped_witness:
  "computeChannelSwapperMatrix
     [\<lparr>r = 51, g = 0, b = 0\<rparr>, \<lparr>r = 0, g = 0, b = 51\<rparr>, \<lparr>r = 102, g = 51, b = 0\<rparr>]
     [\<lparr>r = 102, g = 0, b = 0\<rparr>, \<lparr>r = 102, g = 0, b = 0\<rparr>, \<lparr>r = 0, g = 0, b = 0\<rparr>] True 100
   = Inr [[32000000080000000000 / 160000002400000001, - 200, 80000000000 / 400000001],
          [0, 0, 0], [0, 0, 0]] \<and>
   list_all (list_all (\<lambda>v. - 200 \<le> v \<and> v \<le> 200))
     [[32000000080000000000 / 160000002400000001, - 200, 80000000000 / 400000001],
      [0, 0, 0], [0, 0, 0 :: real]]"
  using computeChannelSwapperMatrix_clamped
    [of "[\<lparr>r = 51, g = 0, b = 0\<rparr>, \<lparr>r = 0, g = 0, b = 51\<rparr>, \<lparr>r = 102, g = 51, b = 0\<rparr>]"
        "[\<lparr>r = 102, g = 0, b = 0\<rparr>, \<lparr>r = 102, g = 0, b = 0\<rparr>, \<lparr>r = 0, g = 0, b = 0\<rparr>]"
        True 100
        "[[32000000080000000000 / 160000002400000001, - 200, 80000000000 / 400000001],
          [0, 0, 0], [0, 0, 0]]"]
    clip_matrix
  by simp

subsection \<open>Totality\<close>

text \<open>
  Claim C3. For non-empty colour lists of equal length, degenerate ones included (all source
  colours identical), \<^verbatim>\<open>computeChannelSwapperMatrix\<close> raises no error, and with a bound
  that is not negative (as the default 100) it returns a matrix of three rows of three
  entries. Every division of the linear solver is behind a check of the divisor's
  magnitude against 1e-12, so on every square system the solver returns a solution vector
  and never divides by zero.
\<close>

theorem computeChannelSwapperMatrix_total:
  assumes "sourceColors \<noteq> []" and "length targetColors = length sourceColors"
  shows "computeChannelSwapperMatrix sourceColors targetColors preventClipping maxSum
           \<noteq> Inl TypeError \<and>
         (0 \<le> maxSum \<longrightarrow>
            (\<exists>m. computeChannelSwapperMatrix sourceColors targetColors preventClipping maxSum
                   = Inr m \<and> length m = 3 \<and> (\<forall>row \<in> set m. length row = 3))) \<and>
         (wellShaped A rhs \<longrightarrow>
            (\<exists>x. solveLinearSystem A rhs = Inr x \<and> length x = length A))"
proof (intro conjI impI)
  show "computeChannelSwapperMatrix sourceColors targetColors preventClipping maxSum
      \<noteq> Inl TypeError"
    using assms by (rule computeChannelSwapperMatrix_no_TypeError)
next
  assume "0 \<le> maxSum"
  from computeChannelSwapperMatrix_Inr [OF assms this, of preventClipping]
  show "\<exists>m. computeChannelSwapperMatrix sourceColors targetColors preventClipping maxSum
      = Inr m \<and> length m = 3 \<and> (\<forall>row \<in> set m. length row = 3)"
    by (auto simp: rows_ok_def)
next
  show "\<exists>x. solveLinearSystem A rhs = Inr x \<and> length x = length A"
    by (rule solveLinearSystem_Inr)
qed

theorem computeChannelSwapperMatrix_total_witness:
  "[\<lparr>r = 10, g = 10, b = 10\<rparr>, \<lparr>r = 10, g = 10, b = 10\<rparr>] \<noteq> [] \<and>
   length [\<lparr>r = 1, g = 2, b = 3\<rparr>, \<lparr>r = 4, g = 5, b = 6\<rparr>] =
     length [\<lparr>r = 10, g = 10, b = 10\<rparr>, \<lparr>r = 10, g = 10, b = 10\<rparr>] \<and>
   computeChannelSwapperMatrix [\<lparr>r = 10, g = 10, b = 10\<rparr>, \<lparr>r = 10, g = 10, b = 10\<rparr>]
     [\<lparr>r = 1, g = 2, b = 3\<rparr>, \<lparr>r = 4, g = 5, b = 6\<rparr>] True 100 \<noteq> Inl TypeError \<and>
   (\<exists>m. computeChannelSwapperMatrix [\<lparr>r = 10, g = 10, b = 10\<rparr>, \<lparr>r = 10, g = 10, b = 10\<rparr>]
     [\<lparr>r = 1, g = 2, b = 3\<rparr>, \<lparr>r = 4, g = 5, b = 6\<rparr>] True 100 = Inr m \<and> length m = 3 \<and>
     list_all (\<lambda>row. length row = 3) m) \<and>
   wellShaped [[1, 1, 0], [1, 1, 0], [0, 0, 1]] [2, 2, 5] \<and>
   (\<exists>x. solveLinearSystem [[1, 1, 0], [1, 1, 0], [0, 0, 1]] [2, 2, 5] = Inr x \<and> length x = 3)"
  using computeChannelSwapperMatrix_total
    [of "[\<lparr>r = 10, g = 10, b = 10\<rparr>, \<lparr>r = 10, g = 10, b = 10\<rparr>]"
        "[\<lparr>r = 1, g = 2, b = 3\<rparr>, \<lparr>r = 4, g = 5, b = 6\<rparr>]" True 100
        "[[1, 1, 0], [1, 1, 0], [0, 0, 1]]" "[2, 2, 5]"]
  by (simp add: list_all_iff wellShaped_def numeral_3_eq_3)

subsection \<open>Singular pivots\<close>

lemma singular_example_pivot:
  "swapRows (Suc 0) (findMaxRow 3 (Suc 0) [[1, 1, 0, 2], [0, 0, 0, 0], [0, 0, 1, 5]])
     [[1, 1, 0, 2], [0, 0, 0, 0], [0, 0, 1, 5]] = [[1, 1, 0, 2], [0, 0, 0, 0], [0, 0, 1, 5]]"
  by code_simp

lemma singular_example_forward:
  "forwardElimination 3 [[1, 1, 0, 2], [1, 1, 0, 2], [0, 0, 1, 5]] =
     Inr [[1, 1, 0, 2], [0, 0, 0, 0], [0, 0, 1, 5]]"
  by code_simp

lemma singular_example_back:
  "backSubstitution 3 [[1, 1, 0, 2], [0, 0, 0, 0], [0, 0, 1, 5]] = Inr [2, 0, 5]"
  by code_simp

lemma threshold_boundary:
  "js_1e_12 < 1 / 10 ^ 12 \<and> solveLinearSystem [[js_1e_12]] [3] = Inr [3 / js_1e_12]"
  by code_simp

text \<open>
  Claim C6. In the forward elimination, a column whose selected pivot (after the row swap)
  has magnitude below the \<^verbatim>\<open>1e-12\<close> of the source is skipped: the turn of the loop returns
  the matrix as the swap left it; any other column is eliminated. In the back substitution,
  a row whose diagonal entry has magnitude below \<^verbatim>\<open>1e-12\<close> gets the default 1 when it is
  the first unknown and 0 otherwise, and nothing is divided for it; any other row is
  divided by its diagonal entry. The solution returned for a square system has the
  defaults at every row of the eliminated matrix with such a diagonal entry.
\<close>

theorem solveLinearSystem_singular:
  "(\<bar>swapRows col (findMaxRow n col aug) aug ! col ! col\<bar> < js_1e_12 \<longrightarrow>
      forwardStep n col aug = Inr (swapRows col (findMaxRow n col aug) aug)) \<and>
   (\<not> \<bar>swapRows col (findMaxRow n col aug) aug ! col ! col\<bar> < js_1e_12 \<longrightarrow>
      forwardStep n col aug = eliminateColumn n col (swapRows col (findMaxRow n col aug) aug)) \<and>
   (\<bar>aug ! i ! i\<bar> < js_1e_12 \<longrightarrow>
      backStep n aug i x = Inr (x[i := (if i = 0 then 1 else 0)])) \<and>
   (\<not> \<bar>aug ! i ! i\<bar> < js_1e_12 \<longrightarrow>
      backStep n aug i x =
        Inr ((foldl (\<lambda>y j. y[i := y ! i - aug ! i ! j * y ! j]) (x[i := aug ! i ! n]) [Suc i..<n])
               [i := foldl (\<lambda>y j. y[i := y ! i - aug ! i ! j * y ! j]) (x[i := aug ! i ! n])
                       [Suc i..<n] ! i / aug ! i ! i])) \<and>
   (wellShaped A rhs \<longrightarrow> (\<exists>aug' y.
      forwardElimination (length A) (map (\<lambda>(row, i). row @ [rhs ! i]) (zip A [0..<length A]))
        = Inr aug' \<and>
      solveLinearSystem A rhs = Inr y \<and> length y = length A \<and>
      (\<forall>i < length A. \<bar>aug' ! i ! i\<bar> < js_1e_12 \<longrightarrow> y ! i = (if i = 0 then 1 else 0))))"
proof (intro conjI impI)
  assume "\<bar>swapRows col (findMaxRow n col aug) aug ! col ! col\<bar> < js_1e_12"
  then show "forwardStep n col aug = Inr (swapRows col (findMaxRow n col aug) aug)"
    by (simp add: forwardStep_def Let_def)
next
  assume "\<not> \<bar>swapRows col (findMaxRow n col aug) aug ! col ! col\<bar> < js_1e_12"
  then show "forwardStep n col aug =
      eliminateColumn n col (swapRows col (findMaxRow n col aug) aug)"
    by (simp add: forwardStep_def Let_def)
next
  assume "\<bar>aug ! i ! i\<bar> < js_1e_12"
  then show "backStep n aug i x = Inr (x[i := (if i = 0 then 1 else 0)])"
    by (simp add: backStep_def)
next
  assume big: "\<not> \<bar>aug ! i ! i\<bar> < js_1e_12"
  then have nz: "aug ! i ! i \<noteq> 0"
    using js_1e_12_pos by auto
  show "backStep n aug i x =
        Inr ((foldl (\<lambda>y j. y[i := y ! i - aug ! i ! j * y ! j]) (x[i := aug ! i ! n]) [Suc i..<n])
               [i := foldl (\<lambda>y j. y[i := y ! i - aug ! i ! j * y ! j]) (x[i := aug ! i ! n])
                       [Suc i..<n] ! i / aug ! i ! i])"
    using big by (simp add: backStep_def Let_def js_div_nonzero [OF nz])
next
  let ?aug = "map (\<lambda>(row, i). row @ [rhs ! i]) (zip A [0..<length A])"
  obtain aug' where a: "forwardElimination (length A) ?aug = Inr aug'"
    using forwardElimination_Inr by blast
  obtain y where y: "backSubstitution (length A) aug' = Inr y" "length y = length A"
    "\<forall>i < length A. \<bar>aug' ! i ! i\<bar> < js_1e_12 \<longrightarrow> y ! i = (if i = 0 then 1 else 0)"
    using backSubstitution_Inr [of "length A" aug'] by blast
  have "solveLinearSystem A rhs = Inr y"
    using a y(1) by (simp add: solveLinearSystem_def Let_def)
  with a y(2,3) show "\<exists>aug' y. forwardElimination (length A) ?aug = Inr aug' \<and>
      solveLinearSystem A rhs = Inr y \<and> length y = length A \<and>
      (\<forall>i < length A. \<bar>aug' ! i ! i\<bar> < js_1e_12 \<longrightarrow> y ! i = (if i = 0 then 1 else 0))"
    by blast
qed

theorem solveLinearSystem_singular_witness:
  "\<bar>swapRows 1 (findMaxRow 3 1 [[1, 1, 0, 2], [0, 0, 0, 0], [0, 0, 1, 5]])
      [[1, 1, 0, 2], [0, 0, 0, 0], [0, 0, 1, 5]] ! 1 ! 1\<bar> < js_1e_12 \<and>
   forwardStep 3 1 [[1, 1, 0, 2], [0, 0, 0, 0], [0, 0, 1, 5]] =
     Inr [[1, 1, 0, 2], [0, 0, 0, 0], [0, 0, 1, 5]] \<and>
   backStep 3 [[1, 1, 0, 2], [0, 0, 0, 0], [0, 0, 1, 5]] 1 [0, 0, 5] = Inr [0, 0, 5] \<and>
   wellShaped [[1, 1, 0], [1, 1, 0], [0, 0, 1]] [2, 2, 5] \<and>
   solveLinearSystem [[1, 1, 0], [1, 1, 0], [0, 0, 1]] [2, 2, 5] = Inr [2, 0, 5] \<and>
   \<bar>[[0 :: real, 7]] ! 0 ! 0\<bar> < js_1e_12 \<and>
   backStep 1 [[0, 7]] 0 [0] = Inr [1] \<and>
   \<not> \<bar>[[js_1e_12, 3]] ! 0 ! 0\<bar> < js_1e_12 \<and>
   backStep 1 [[js_1e_12, 3]] 0 [0] = Inr [3 / js_1e_12]"
proof -
  have s: "solveLinearSystem [[1, 1, 0], [1, 1, 0], [0, 0, 1]] [2, 2, 5] = Inr [2, 0, 5]"
    unfolding solveLinearSystem_3 by (simp add: singular_example_forward singular_example_back)
  have p: "0 < js_1e_12" by (rule js_1e_12_pos)
  show ?thesis
    using solveLinearSystem_singular
      [of 1 3 "[[1, 1, 0, 2], [0, 0, 0, 0], [0, 0, 1, 5]]" 1 "[0, 0, 5]"
          "[[1, 1, 0], [1, 1, 0], [0, 0, 1]]" "[2, 2, 5]"]
      solveLinearSystem_singular [of 0 1 "[[0, 7]]" 0 "[0]" "[]" "[]"]
      solveLinearSystem_singular [of 0 1 "[[js_1e_12, 3]]" 0 "[0]" "[]" "[]"]
      s p
    by (simp add: singular_example_pivot wellShaped_def)
qed

subsection \<open>Order of the pairs\<close>

lemma sum_list_map_mset:
  fixes f :: "'a \<Rightarrow> real"
  assumes "mset xs = mset ys"
  shows "sum_list (map f xs) = sum_list (map f ys)"
proof -
  have "sum_list (map f xs) = sum_mset (image_mset f (mset xs))"
    by (metis mset_map sum_mset_sum_list)
  also have "\<dots> = sum_mset (image_mset f (mset ys))"
    by (simp add: assms)
  also have "\<dots> = sum_list (map f ys)"
    by (metis mset_map sum_mset_sum_list)
  finally show ?thesis .
qed

lemma ATA_of_mset:
  assumes "mset A' = mset A"
  shows "ATA_of m A' = ATA_of m A"
  unfolding ATA_of_def foldl_add_sum_list
  using sum_list_map_mset [OF assms] by simp

lemma ATb_entry:
  fixes rhs :: "real list"
  assumes "length A \<le> length rhs"
  shows "foldl (\<lambda>sum (row, k). sum + row ! i * rhs ! k) 0 (zip A [0..<length A]) =
     sum_list (map (\<lambda>(row, t). row ! i * t) (zip A rhs))"
proof -
  have "(\<lambda>sum (row, k). sum + row ! i * rhs ! k) =
      (\<lambda>sum p. sum + (case p of (row, k) \<Rightarrow> (row ! i * rhs ! k :: real)))"
    by (simp add: fun_eq_iff)
  then have "foldl (\<lambda>sum (row, k). sum + row ! i * rhs ! k) 0 (zip A [0..<length A]) =
      sum_list (map (\<lambda>(row, k). row ! i * rhs ! k) (zip A [0..<length A]))"
    by (simp add: foldl_add_sum_list)
  also have "map (\<lambda>(row, k). row ! i * rhs ! k) (zip A [0..<length A]) =
      map (\<lambda>(row, t). row ! i * t) (zip A rhs)"
    using assms by (intro nth_equalityI) simp_all
  finally show ?thesis .
qed

lemma ATb_of_mset:
  assumes "length A \<le> length rhs" and "length A' \<le> length rhs'"
    and "mset (zip A' rhs') = mset (zip A rhs)"
  shows "ATb_of m A' rhs' = ATb_of m A rhs"
  unfolding ATb_of_def ATb_entry [OF assms(1)] ATb_entry [OF assms(2)]
  using sum_list_map_mset [OF assms(3)] by simp

lemma solveLeastSquares_mset:
  assumes "\<forall>row \<in> set A. length row = 3"
    and "length rhs = length A" and "length rhs' = length A'"
    and "mset (zip A' rhs') = mset (zip A rhs)"
  shows "solveLeastSquares A' rhs' = solveLeastSquares A rhs"
proof -
  have "mset (map fst (zip A' rhs')) = mset (map fst (zip A rhs))"
    using assms(4) by (metis mset_map)
  then have A: "mset A' = mset A"
    using assms(2,3) by simp
  then have rows: "\<forall>row \<in> set A'. length row = 3"
    using assms(1) by (metis mset_eq_setD)
  show ?thesis
  proof (cases "A = []")
    case True
    with A have "A' = []" by simp
    with True show ?thesis by (simp add: solveLeastSquares_def)
  next
    case False
    with A have ne: "A' \<noteq> []" by auto
    have "solveLeastSquares A' rhs' =
        solveLinearSystem (regularize 3 (ATA_of 3 A')) (ATb_of 3 A' rhs')"
      using ne rows assms(3) by (intro solveLeastSquares_rows3) simp_all
    also have "\<dots> = solveLinearSystem (regularize 3 (ATA_of 3 A)) (ATb_of 3 A rhs)"
      using ATA_of_mset [OF A] ATb_of_mset [of A rhs A' rhs'] assms(2,3,4) by simp
    also have "\<dots> = solveLeastSquares A rhs"
      using False assms(1,2) by (intro solveLeastSquares_rows3 [symmetric]) simp_all
    finally show ?thesis .
  qed
qed

lemma zip_normalize:
  "zip (map normalize ss) (map (\<lambda>t. t ! c) (map normalize ts)) =
     map (\<lambda>(s, t). (normalize s, normalize t ! c)) (zip ss ts)"
  unfolding map_map zip_map_map by (simp only: comp_def)

lemma channelRow_mset:
  assumes "length targetColors = length sourceColors"
    and "length targetColors' = length sourceColors'"
    and "mset (zip sourceColors' targetColors') = mset (zip sourceColors targetColors)"
  shows "channelRow (map normalize sourceColors') (map normalize targetColors') pc ms c mat =
         channelRow (map normalize sourceColors) (map normalize targetColors) pc ms c mat"
proof -
  let ?h = "\<lambda>(s, t). (normalize s, normalize t ! c)"
  have "image_mset ?h (mset (zip sourceColors' targetColors')) =
      image_mset ?h (mset (zip sourceColors targetColors))"
    by (simp only: assms(3))
  then have "mset (map ?h (zip sourceColors' targetColors')) =
      mset (map ?h (zip sourceColors targetColors))"
    by (simp only: mset_map)
  then have m: "mset (zip (map normalize sourceColors')
        (map (\<lambda>t. t ! c) (map normalize targetColors'))) =
      mset (zip (map normalize sourceColors)
        (map (\<lambda>t. t ! c) (map normalize targetColors)))"
    by (simp only: zip_normalize)
  have rows: "\<forall>row \<in> set (map normalize sourceColors). length row = 3"
    by (simp add: normalize_def)
  have "solveLeastSquares (map normalize sourceColors')
        (map (\<lambda>t. t ! c) (map normalize targetColors')) =
      solveLeastSquares (map normalize sourceColors)
        (map (\<lambda>t. t ! c) (map normalize targetColors))"
  proof (rule solveLeastSquares_mset [OF rows _ _ m])
    show "length (map (\<lambda>t. t ! c) (map normalize targetColors)) =
        length (map normalize sourceColors)"
      using assms(1) by simp
    show "length (map (\<lambda>t. t ! c) (map normalize targetColors')) =
        length (map normalize sourceColors')"
      using assms(2) by simp
  qed
  then show ?thesis
    unfolding channelRow_def Let_def by (simp only:)
qed

text \<open>
  Claim C5. Over exact arithmetic, permuting the pairs (the same permutation on the source and
  the target list) does not change the result of \<^verbatim>\<open>computeChannelSwapperMatrix\<close>: two
  inputs with the same multiset of (source, target) pairs give the same matrix, for any
  number of pairs, two or more included.
\<close>

theorem computeChannelSwapperMatrix_permutation:
  assumes "length targetColors = length sourceColors"
    and "length targetColors' = length sourceColors'"
    and "mset (zip sourceColors' targetColors') = mset (zip sourceColors targetColors)"
  shows "computeChannelSwapperMatrix sourceColors' targetColors' preventClipping maxSum =
         computeChannelSwapperMatrix sourceColors targetColors preventClipping maxSum"
proof -
  have "channelRow (map normalize sourceColors') (map normalize targetColors')
          preventClipping maxSum =
        channelRow (map normalize sourceColors) (map normalize targetColors)
          preventClipping maxSum"
    using channelRow_mset [OF assms] by (intro ext)
  then show ?thesis
    unfolding computeChannelSwapperMatrix_def Let_def by (simp only:)
qed

theorem computeChannelSwapperMatrix_permutation_witness:
  "length [\<lparr>r = 0, g = 255, b = 0\<rparr>, \<lparr>r = 10, g = 20, b = 30\<rparr>] =
     length [\<lparr>r = 255, g = 0, b = 0\<rparr>, \<lparr>r = 40, g = 50, b = 60\<rparr>] \<and>
   mset (zip [\<lparr>r = 40, g = 50, b = 60\<rparr>, \<lparr>r = 255, g = 0, b = 0\<rparr>]
             [\<lparr>r = 10, g = 20, b = 30\<rparr>, \<lparr>r = 0, g = 255, b = 0\<rparr>]) =
   mset (zip [\<lparr>r = 255, g = 0, b = 0\<rparr>, \<lparr>r = 40, g = 50, b = 60\<rparr>]
             [\<lparr>r = 0, g = 255, b = 0\<rparr>, \<lparr>r = 10, g = 20, b = 30\<rparr>]) \<and>
   computeChannelSwapperMatrix
     [\<lparr>r = 40, g = 50, b = 60\<rparr>, \<lparr>r = 255, g = 0, b = 0\<rparr>]
     [\<lparr>r = 10, g = 20, b = 30\<rparr>, \<lparr>r = 0, g = 255, b = 0\<rparr>] True 100 =
   computeChannelSwapperMatrix
     [\<lparr>r = 255, g = 0, b = 0\<rparr>, \<lparr>r = 40, g = 50, b = 60\<rparr>]
     [\<lparr>r = 0, g = 255, b = 0\<rparr>, \<lparr>r = 10, g = 20, b = 30\<rparr>] True 100"
proof -
  have m: "mset (zip [\<lparr>r = 40, g = 50, b = 60\<rparr>, \<lparr>r = 255, g = 0, b = 0\<rparr>]
             [\<lparr>r = 10, g = 20, b = 30\<rparr>, \<lparr>r = 0, g = 255, b = 0\<rparr>]) =
   mset (zip [\<lparr>r = 255, g = 0, b = 0\<rparr>, \<lparr>r = 40, g = 50, b = 60 :: real\<rparr>]
             [\<lparr>r = 0, g = 255, b = 0\<rparr>, \<lparr>r = 10, g = 20, b = 30 :: real\<rparr>])"
    by (simp add: add_mset_commute)
  show ?thesis
    using m computeChannelSwapperMatrix_permutation
      [of "[\<lparr>r = 0, g = 255, b = 0\<rparr>, \<lparr>r = 10, g = 20, b = 30\<rparr>]"
          "[\<lparr>r = 255, g = 0, b = 0\<rparr>, \<lparr>r = 40, g = 50, b = 60\<rparr>]"
          "[\<lparr>r = 10, g = 20, b = 30\<rparr>, \<lparr>r = 0, g = 255, b = 0\<rparr>]"
          "[\<lparr>r = 40, g = 50, b = 60\<rparr>, \<lparr>r = 255, g = 0, b = 0\<rparr>]" True 100]
    by simp
qed

end
